theory Spec2Isabelle
  imports Main
begin

section \<open>Strings: the functions of Go's \<open>strings\<close> package that cleanarch.go calls\<close>

text \<open>
  A Go string is a sequence of bytes, here a \<open>string\<close> (a list of 8-bit characters).
  \<open>strings.HasPrefix(s, prefix)\<close> is \<open>len(s) >= len(prefix) && s[:len(prefix)] == prefix\<close>
  and \<open>strings.HasSuffix(s, suffix)\<close> is
  \<open>len(s) >= len(suffix) && s[len(s)-len(suffix):] == suffix\<close>.
\<close>

definition HasPrefix :: "string \<Rightarrow> string \<Rightarrow> bool" where
  "HasPrefix s prefix = (length prefix \<le> length s \<and> take (length prefix) s = prefix)"

definition HasSuffix :: "string \<Rightarrow> string \<Rightarrow> bool" where
  "HasSuffix s suffix =
     (length suffix \<le> length s \<and> drop (length s - length suffix) s = suffix)"

definition TrimPrefix :: "string \<Rightarrow> string \<Rightarrow> string" where
  "TrimPrefix s prefix = (if HasPrefix s prefix then drop (length prefix) s else s)"

definition TrimSuffix :: "string \<Rightarrow> string \<Rightarrow> string" where
  "TrimSuffix s suffix =
     (if HasSuffix s suffix then take (length s - length suffix) s else s)"

text \<open>
  \<open>strings.Contains(s, substr)\<close> holds when \<open>substr\<close> occurs in \<open>s\<close> at some offset;
  the empty string occurs in every string.
\<close>

fun Contains :: "string \<Rightarrow> string \<Rightarrow> bool" where
  "Contains [] substr = (substr = [])"
| "Contains (c # cs) substr = (HasPrefix (c # cs) substr \<or> Contains cs substr)"

text \<open>
  \<open>strings.Split(s, sep)\<close> for a separator of one byte (the source only splits on
  \<open>"/"\<close>): the substrings between the separators, in order. A string without the
  separator, the empty string included, gives a slice of length one.
\<close>

fun Split :: "string \<Rightarrow> char \<Rightarrow> string list" where
  "Split [] sep = [[]]"
| "Split (c # cs) sep =
     (if c = sep then [] # Split cs sep
      else (case Split cs sep of
              [] \<Rightarrow> [[c]]
            | part # parts \<Rightarrow> (c # part) # parts))"

section \<open>Layers and their hierarchy\<close>

text \<open>
  \<open>type Layer string\<close>: a layer is any string; four constants are named, and the empty
  string is the zero value.
\<close>

type_synonym Layer = string

definition LayerDomain :: Layer where
  "LayerDomain = ''domain''"

definition LayerApplication :: Layer where
  "LayerApplication = ''application''"

definition LayerInfrastructure :: Layer where
  "LayerInfrastructure = ''infrastructure''"

definition LayerInterfaces :: Layer where
  "LayerInterfaces = ''interfaces''"

definition layersHierarchy :: "Layer \<rightharpoonup> int" where
  "layersHierarchy =
     [LayerDomain \<mapsto> 1,
      LayerApplication \<mapsto> 2,
      LayerInterfaces \<mapsto> 3,
      LayerInfrastructure \<mapsto> 4]"

text \<open>Indexing a Go \<open>map[Layer]int\<close>: a key that is absent reads as the zero value.\<close>

definition index_int :: "('k \<rightharpoonup> int) \<Rightarrow> 'k \<Rightarrow> int" where
  "index_int m k = (case m k of None \<Rightarrow> 0 | Some n \<Rightarrow> n)"

section \<open>Classification of a path: \<open>ParseLayerMetadata\<close>\<close>

record LayerMetadata =
  Module :: string
  Layer :: Layer

text \<open>
  The alias table is a Go \<open>map[string]Layer\<close>. A \<open>range\<close> statement over it yields its
  entries, every key once, in an order the language leaves open and that may differ
  from one execution of the statement to the next. An \<open>alias_range\<close> is one such
  enumeration, and an \<open>alias_table\<close> gives, for each value \<open>i\<close> of the index of the outer
  loop of \<open>ParseLayerMetadata\<close>, the enumeration that the \<open>range\<close> statement runs through
  at that iteration. \<open>enumerates\<close> says that an enumeration is one of the map \<open>m\<close>, and
  \<open>represents\<close> that all the enumerations of a table are.
\<close>

type_synonym alias_range = "(string \<times> Layer) list"

type_synonym alias_table = "nat \<Rightarrow> alias_range"

definition enumerates :: "alias_range \<Rightarrow> (string \<rightharpoonup> Layer) \<Rightarrow> bool" where
  "enumerates entries m = (distinct (map fst entries) \<and> map_of entries = m)"

definition represents :: "alias_table \<Rightarrow> (string \<rightharpoonup> Layer) \<Rightarrow> bool" where
  "represents alias m = (\<forall>i. enumerates (alias i) m)"

text \<open>The table that enumerates its entries in the same order every time.\<close>

definition in_order :: "alias_range \<Rightarrow> alias_table" where
  "in_order entries i = entries"

text \<open>
  The inner loop, \<open>for alias, layer := range alias\<close>: every entry whose key is the path
  part stores its layer (the \<open>continue\<close> of the source goes on with the same loop).
\<close>

fun range_alias :: "alias_range \<Rightarrow> string \<Rightarrow> LayerMetadata \<Rightarrow> LayerMetadata" where
  "range_alias [] pathPart metadata = metadata"
| "range_alias ((alias, layer) # entries) pathPart metadata =
     range_alias entries pathPart
       (if pathPart = alias then metadata\<lparr>Layer := layer\<rparr> else metadata)"

text \<open>
  The outer loop, \<open>for i := len(pathParts) - 1; i >= 0; i--\<close>. The numeric argument is
  \<open>i + 1\<close>: the loop is over when it is \<open>0\<close>. The \<open>break\<close> returns the metadata as it
  is then.
\<close>

fun walk_parts :: "alias_table \<Rightarrow> string list \<Rightarrow> nat \<Rightarrow> LayerMetadata \<Rightarrow> LayerMetadata" where
  "walk_parts alias pathParts 0 metadata = metadata"
| "walk_parts alias pathParts (Suc i) metadata =
     (let pathPart = pathParts ! i in
      if Layer metadata \<noteq> [] then metadata\<lparr>Module := pathPart\<rparr>
      else walk_parts alias pathParts i (range_alias (alias i) pathPart metadata))"

definition ParseLayerMetadata :: "string \<Rightarrow> alias_table \<Rightarrow> LayerMetadata" where
  "ParseLayerMetadata path alias =
     (let pathParts = Split path CHR ''/'';
          metadata = \<lparr>Module = [], Layer = []\<rparr>
      in walk_parts alias pathParts (length pathParts) metadata)"

section \<open>The validator\<close>

text \<open>
  A \<open>ValidationError\<close> is an error made by \<open>fmt.Errorf\<close>: its message. The field
  \<open>alias\<close> of the validator is \<open>alias'\<close> here.
\<close>

type_synonym ValidationError = string

record Validator =
  filesMetadata :: "string \<rightharpoonup> LayerMetadata"
  alias' :: alias_table

definition NewValidator :: "alias_table \<Rightarrow> Validator" where
  "NewValidator alias = \<lparr>filesMetadata = Map.empty, alias' = alias\<rparr>"

text \<open>Indexing the cache, a Go \<open>map[string]LayerMetadata\<close>.\<close>

definition index_metadata :: "(string \<rightharpoonup> LayerMetadata) \<Rightarrow> string \<Rightarrow> LayerMetadata" where
  "index_metadata m k = (case m k of None \<Rightarrow> \<lparr>Module = [], Layer = []\<rparr> | Some metadata \<Rightarrow> metadata)"

text \<open>
  \<open>fileMetadata\<close> writes the cache of its receiver: the model returns the validator
  after the call beside the metadata.
\<close>

definition fileMetadata :: "Validator \<Rightarrow> string \<Rightarrow> LayerMetadata \<times> Validator" where
  "fileMetadata v path =
     (case filesMetadata v path of
        Some metadata \<Rightarrow> (metadata, v)
      | None \<Rightarrow>
          (let v' = v\<lparr>filesMetadata :=
                      (filesMetadata v)(path \<mapsto> ParseLayerMetadata path (alias' v))\<rparr>
           in (index_metadata (filesMetadata v') path, v')))"

text \<open>
  \<open>validateImport\<close>: \<open>imp\<close> is \<open>imp.Path.Value\<close>, the import path as written in the file,
  quotes included.
\<close>

definition validateImport ::
  "Validator \<Rightarrow> string \<Rightarrow> LayerMetadata \<Rightarrow> string \<Rightarrow> ValidationError list \<times> Validator" where
  "validateImport v imp importerMeta path =
     (let importPath = TrimPrefix (TrimSuffix imp [CHR 0x22]) [CHR 0x22];
          (importMeta, v') = fileMetadata v importPath
      in if Module importMeta = Module importerMeta then
           (let importHierarchy = index_int layersHierarchy (Layer importMeta);
                importerHierarchy = index_int layersHierarchy (Layer importerMeta)
            in if importHierarchy > importerHierarchy then
                 ([''you cannot import '' @ Layer importMeta @ '' Layer ('' @ importPath
                   @ '') to '' @ Layer importerMeta @ '' Layer ('' @ path @ '')''], v')
               else ([], v'))
         else if Layer importMeta \<noteq> [] then
           (if Layer importMeta \<noteq> LayerInterfaces \<or> Layer importerMeta \<noteq> LayerInfrastructure then
              ([''trying to import '' @ Layer importMeta @ '' Layer ('' @ importPath
                @ '') to '' @ Layer importerMeta @ '' Layer ('' @ path @ '') between ''
                @ Module importMeta @ '' and '' @ Module importerMeta
                @ '' modules, you can only import interfaces Layer to infrastructure Layer''],
               v')
            else ([], v'))
         else ([], v'))"

text \<open>
  The loop over the ignored packages: \<open>continue ImportsLoop\<close> at the first one that the
  import path, as written, contains.
\<close>

fun ignored :: "string \<Rightarrow> string list \<Rightarrow> bool" where
  "ignored imp [] = False"
| "ignored imp (ignoredPackage # ignoredPackages) =
     (if Contains imp ignoredPackage then True else ignored imp ignoredPackages)"

text \<open>
  \<open>ImportsLoop\<close>, over \<open>f.Imports\<close>: the state is the validator and \<open>errors\<close>, the slice
  that the closure appends to.
\<close>

fun ImportsLoop ::
  "string list \<Rightarrow> LayerMetadata \<Rightarrow> string \<Rightarrow> string list
     \<Rightarrow> Validator \<times> ValidationError list \<Rightarrow> Validator \<times> ValidationError list" where
  "ImportsLoop ignoredPackages importerMeta path [] s = s"
| "ImportsLoop ignoredPackages importerMeta path (imp # imports) (v, errors) =
     (if ignored imp ignoredPackages then
        ImportsLoop ignoredPackages importerMeta path imports (v, errors)
      else
        (let (validationErrors, v') = validateImport v imp importerMeta path
         in ImportsLoop ignoredPackages importerMeta path imports
              (v', errors @ validationErrors)))"

text \<open>
  What \<open>filepath.Walk\<close> hands to the callback for one name under the root: the path, the
  \<open>os.FileInfo\<close> (\<open>None\<close> for the nil that \<open>Walk\<close> passes when \<open>Lstat\<close> failed, else
  whether \<open>fi.IsDir()\<close>), and what \<open>parser.ParseFile(fset, path, nil, parser.ImportsOnly)\<close>
  returns for that path: an error, or the file, of which the callback reads the
  \<open>Path.Value\<close> of each of \<open>f.Imports\<close>.
\<close>

record walk_entry =
  entry_path :: string
  entry_fi :: "bool option"
  entry_parse :: "string + string list"

text \<open>
  A call either returns or panics. The callback panics with the parser's error, and
  calling \<open>IsDir\<close> on a nil \<open>os.FileInfo\<close> is a nil dereference.
\<close>

datatype panic = NilDereference | ParsePanic string

datatype 'a outcome = Panics panic | Returns 'a

text \<open>
  The callback of \<open>Validate\<close>. It returns \<open>nil\<close> on every path that returns: the second
  component of the result is that error.
\<close>

definition walkFn ::
  "bool \<Rightarrow> string list \<Rightarrow> walk_entry \<Rightarrow> Validator \<times> ValidationError list
     \<Rightarrow> ((Validator \<times> ValidationError list) \<times> string option) outcome" where
  "walkFn ignoreTests ignoredPackages e s =
     (let path = entry_path e; (v, errors) = s in
      case entry_fi e of
        None \<Rightarrow> Panics NilDereference
      | Some isDir \<Rightarrow>
          if isDir then Returns (s, None)
          else if \<not> HasSuffix path ''.go'' then Returns (s, None)
          else if ignoreTests \<and> HasSuffix path ''_test.go'' then Returns (s, None)
          else if Contains path ''/vendor/'' then Returns (s, None)
          else if Contains path ''/.'' then Returns (s, None)
          else
            (case entry_parse e of
               Inl err \<Rightarrow> Panics (ParsePanic err)
             | Inr imports \<Rightarrow>
                 (let (importerMeta, v1) = fileMetadata v path in
                  if Layer importerMeta = [] \<or> Module importerMeta = [] then
                    Returns ((v1, errors), None)
                  else
                    Returns (ImportsLoop ignoredPackages importerMeta path imports (v1, errors),
                             None))))"

text \<open>
  \<open>filepath.Walk\<close>, over the entries it finds under the root, in its order: it stops at
  the first error that the callback returns and returns it, and a panic of the
  callback goes through it.
\<close>

fun Walk ::
  "walk_entry list \<Rightarrow> (walk_entry \<Rightarrow> 's \<Rightarrow> ('s \<times> string option) outcome) \<Rightarrow> 's
     \<Rightarrow> ('s \<times> string option) outcome" where
  "Walk [] fn s = Returns (s, None)"
| "Walk (e # es) fn s =
     (case fn e s of
        Panics p \<Rightarrow> Panics p
      | Returns (s', Some err) \<Rightarrow> Returns (s', Some err)
      | Returns (s', None) \<Rightarrow> Walk es fn s')"

text \<open>
  \<open>Validate\<close>. The first argument stands for the file system: the entries that
  \<open>filepath.Walk(root, ...)\<close> visits. The result is the triple that the source returns
  (a nil slice is the empty list) and the validator after the call.
\<close>

definition Validate ::
  "walk_entry list \<Rightarrow> Validator \<Rightarrow> string \<Rightarrow> bool \<Rightarrow> string list
     \<Rightarrow> ((bool \<times> ValidationError list \<times> string option) \<times> Validator) outcome" where
  "Validate under_root v root ignoreTests ignoredPackages =
     (case Walk under_root (walkFn ignoreTests ignoredPackages) (v, []) of
        Panics p \<Rightarrow> Panics p
      | Returns ((v', errors), Some err) \<Rightarrow> Returns ((False, [], Some err), v')
      | Returns ((v', errors), None) \<Rightarrow> Returns ((errors = [], errors, None), v'))"

section \<open>Notions that the properties are stated with\<close>

text \<open>Joining parts with a separator, the inverse of \<open>Split\<close>.\<close>

fun Join :: "string list \<Rightarrow> char \<Rightarrow> string" where
  "Join [] sep = []"
| "Join [part] sep = part"
| "Join (part # parts) sep = part @ sep # Join parts sep"

text \<open>
  The classification as the specification words it, over the alias map itself. The
  segments come from last to first: the first one that is an alias key gives the layer,
  the next one toward the start of the path is the module (none is left when the layer
  segment is the first path component), and a path without a matching segment has
  neither.
\<close>

fun classify_segments :: "(string \<rightharpoonup> Layer) \<Rightarrow> string list \<Rightarrow> LayerMetadata" where
  "classify_segments m [] = \<lparr>Module = [], Layer = []\<rparr>"
| "classify_segments m (segment # towards_start) =
     (case m segment of
        Some layer \<Rightarrow>
          \<lparr>Module = (case towards_start of [] \<Rightarrow> [] | next_segment # _ \<Rightarrow> next_segment),
           Layer = layer\<rparr>
      | None \<Rightarrow> classify_segments m towards_start)"

definition Classify :: "string \<Rightarrow> (string \<rightharpoonup> Layer) \<Rightarrow> LayerMetadata" where
  "Classify path m = classify_segments m (rev (Split path CHR ''/''))"

text \<open>
  The validators that a program holds after \<open>NewValidator\<close>. The cache is an unexported
  field that \<open>NewValidator\<close> makes empty and that \<open>fileMetadata\<close> alone writes; every
  other method reaches the cache through \<open>fileMetadata\<close>. The alias table is the one
  given to \<open>NewValidator\<close>, taken as it is then.
\<close>

inductive reachable :: "Validator \<Rightarrow> bool" where
  new: "reachable (NewValidator alias)"
| lookup: "reachable v \<Longrightarrow> reachable (snd (fileMetadata v path))"

text \<open>A validator after the lookups of some paths, one after the other.\<close>

fun lookups :: "Validator \<Rightarrow> string list \<Rightarrow> Validator" where
  "lookups v [] = v"
| "lookups v (path # paths) = lookups (snd (fileMetadata v path)) paths"

text \<open>
  An entry reaches the parser when it passes the filters of the callback; the callback
  panics at an entry without \<open>os.FileInfo\<close> and at one that reaches the parser and
  does not parse.
\<close>

definition reaches_parser :: "bool \<Rightarrow> walk_entry \<Rightarrow> bool" where
  "reaches_parser ignoreTests e =
     (entry_fi e = Some False \<and> HasSuffix (entry_path e) ''.go''
      \<and> \<not> (ignoreTests \<and> HasSuffix (entry_path e) ''_test.go'')
      \<and> \<not> Contains (entry_path e) ''/vendor/''
      \<and> \<not> Contains (entry_path e) ''/.'')"

definition callback_panics :: "bool \<Rightarrow> walk_entry \<Rightarrow> bool" where
  "callback_panics ignoreTests e =
     (entry_fi e = None \<or> (reaches_parser ignoreTests e \<and> isl (entry_parse e)))"

text \<open>A call of \<open>Validate\<close> that returns a non-nil error to its caller.\<close>

definition returns_error ::
  "((bool \<times> ValidationError list \<times> string option) \<times> Validator) outcome \<Rightarrow> bool" where
  "returns_error r =
     (case r of Panics p \<Rightarrow> False | Returns ((ok, errors, err), v) \<Rightarrow> err \<noteq> None)"

text \<open>
  An import is exempt when its path, as written, contains one of the ignored packages;
  \<open>without_exempt\<close> is an entry as if the file did not have its exempt imports.
\<close>

definition exempt :: "string list \<Rightarrow> string \<Rightarrow> bool" where
  "exempt ignoredPackages imp =
     (\<exists>ignoredPackage \<in> set ignoredPackages. Contains imp ignoredPackage)"

definition without_exempt :: "string list \<Rightarrow> walk_entry \<Rightarrow> walk_entry" where
  "without_exempt ignoredPackages e =
     e\<lparr>entry_parse :=
         map_sum id (filter (\<lambda>imp. \<not> exempt ignoredPackages imp)) (entry_parse e)\<rparr>"

text \<open>
  The alias table of the concrete scenarios of the specification, in one order of
  enumeration, a validator made from it, and an import path as a file writes it,
  between double quotes.
\<close>

definition scenario_aliases :: alias_range where
  "scenario_aliases =
     [(''domain'', LayerDomain), (''application'', LayerApplication),
      (''infra'', LayerInfrastructure), (''interfaces'', LayerInterfaces)]"

definition scenario_validator :: Validator where
  "scenario_validator = NewValidator (in_order scenario_aliases)"

definition quoted :: "string \<Rightarrow> string" where
  "quoted importPath = CHR 0x22 # importPath @ [CHR 0x22]"

section \<open>The string functions are the ones of the library\<close>

text \<open>
  \<open>HasPrefix\<close>, \<open>HasSuffix\<close> and \<open>Contains\<close> are the prefix, suffix and substring
  relations, and \<open>Split\<close> is the one list of parts, free of the separator, that joins
  to the string.
\<close>

lemma HasPrefix_iff: "HasPrefix s prefix \<longleftrightarrow> (\<exists>rest. s = prefix @ rest)"
  unfolding HasPrefix_def
proof
  assume h: "length prefix \<le> length s \<and> take (length prefix) s = prefix"
  have "s = take (length prefix) s @ drop (length prefix) s" by simp
  with h have "s = prefix @ drop (length prefix) s" by simp
  then show "\<exists>rest. s = prefix @ rest" ..
next
  assume "\<exists>rest. s = prefix @ rest"
  then show "length prefix \<le> length s \<and> take (length prefix) s = prefix" by auto
qed

lemma Contains_iff: "Contains s substr \<longleftrightarrow> (\<exists>before after. s = before @ substr @ after)"
proof (induction s)
  case Nil
  show ?case by auto
next
  case (Cons c cs)
  show ?case
  proof
    assume "Contains (c # cs) substr"
    then consider "HasPrefix (c # cs) substr" | "Contains cs substr" by auto
    then show "\<exists>before after. c # cs = before @ substr @ after"
    proof cases
      case 1
      then obtain rest where "c # cs = substr @ rest" by (auto simp: HasPrefix_iff)
      then have "c # cs = [] @ substr @ rest" by simp
      then show ?thesis by blast
    next
      case 2
      with Cons.IH obtain before after where "cs = before @ substr @ after" by blast
      then have "c # cs = (c # before) @ substr @ after" by simp
      then show ?thesis by blast
    qed
  next
    assume "\<exists>before after. c # cs = before @ substr @ after"
    then obtain before after where eq: "c # cs = before @ substr @ after" by blast
    show "Contains (c # cs) substr"
    proof (cases before)
      case Nil
      with eq have "HasPrefix (c # cs) substr" by (auto simp: HasPrefix_iff)
      then show ?thesis by simp
    next
      case (Cons b before')
      with eq have "cs = before' @ substr @ after" by simp
      with Cons.IH have "Contains cs substr" by blast
      then show ?thesis by simp
    qed
  qed
qed

lemma Split_not_Nil: "Split s sep \<noteq> []"
  by (induction s) (auto split: list.splits)

lemma Split_no_sep: "part \<in> set (Split s sep) \<Longrightarrow> sep \<notin> set part"
  by (induction s arbitrary: part) (auto split: list.splits if_splits)

lemma Join_Split: "Join (Split s sep) sep = s"
proof (induction s)
  case Nil
  show ?case by simp
next
  case (Cons c cs)
  show ?case
  proof (cases "Split cs sep")
    case Nil
    then show ?thesis using Split_not_Nil by blast
  next
    case (Cons part parts)
    with Cons.IH show ?thesis by (cases parts) auto
  qed
qed

lemma Split_without_sep: "sep \<notin> set part \<Longrightarrow> Split part sep = [part]"
  by (induction part) auto

lemma Split_append_sep:
  "sep \<notin> set part \<Longrightarrow> Split (part @ sep # rest) sep = part # Split rest sep"
  by (induction part) auto

lemma Split_Join:
  "parts \<noteq> [] \<Longrightarrow> \<forall>part \<in> set parts. sep \<notin> set part \<Longrightarrow>
   Split (Join parts sep) sep = parts"
  by (induction parts sep rule: Join.induct) (auto simp: Split_without_sep Split_append_sep)

lemma HasSuffix_iff: "HasSuffix s suffix \<longleftrightarrow> (\<exists>rest. s = rest @ suffix)"
  unfolding HasSuffix_def
proof
  assume h: "length suffix \<le> length s \<and> drop (length s - length suffix) s = suffix"
  have "s = take (length s - length suffix) s @ drop (length s - length suffix) s" by simp
  with h have "s = take (length s - length suffix) s @ suffix" by simp
  then show "\<exists>rest. s = rest @ suffix" ..
next
  assume "\<exists>rest. s = rest @ suffix"
  then show "length suffix \<le> length s \<and> drop (length s - length suffix) s = suffix" by auto
qed

section \<open>The loops of \<open>ParseLayerMetadata\<close>\<close>

lemma range_alias_Module: "Module (range_alias entries pathPart metadata) = Module metadata"
  by (induction entries pathPart metadata rule: range_alias.induct) auto

lemma range_alias_absent:
  "pathPart \<notin> fst ` set entries \<Longrightarrow> range_alias entries pathPart metadata = metadata"
  by (induction entries pathPart metadata rule: range_alias.induct) auto

lemma range_alias_lookup:
  "distinct (map fst entries) \<Longrightarrow>
   range_alias entries pathPart metadata =
     (case map_of entries pathPart of None \<Rightarrow> metadata | Some layer \<Rightarrow> metadata\<lparr>Layer := layer\<rparr>)"
proof (induction entries pathPart metadata rule: range_alias.induct)
  case (1 pathPart metadata)
  show ?case by simp
next
  case (2 key layer entries pathPart metadata)
  show ?case
  proof (cases "pathPart = key")
    case True
    with "2.prems" have "pathPart \<notin> fst ` set entries" by auto
    then show ?thesis using True by (simp add: range_alias_absent)
  next
    case False
    with 2 show ?thesis by simp
  qed
qed

lemma range_alias_enumerates:
  "enumerates entries m \<Longrightarrow>
   range_alias entries pathPart metadata =
     (case m pathPart of None \<Rightarrow> metadata | Some layer \<Rightarrow> metadata\<lparr>Layer := layer\<rparr>)"
  unfolding enumerates_def using range_alias_lookup by blast

lemma walk_parts_classify:
  assumes "represents alias m" and "[] \<notin> ran m"
  shows "n \<le> length pathParts \<Longrightarrow>
         walk_parts alias pathParts n \<lparr>Module = [], Layer = []\<rparr> =
           classify_segments m (rev (take n pathParts))"
proof (induction n)
  case 0
  show ?case by simp
next
  case (Suc n)
  then have n: "n < length pathParts" by simp
  have rv: "rev (take (Suc n) pathParts) = pathParts ! n # rev (take n pathParts)"
    using n by (simp add: take_Suc_conv_app_nth)
  have en: "enumerates (alias n) m" using assms(1) by (simp add: represents_def)
  show ?case
  proof (cases "m (pathParts ! n)")
    case None
    then have "range_alias (alias n) (pathParts ! n) \<lparr>Module = [], Layer = []\<rparr>
                 = \<lparr>Module = [], Layer = []\<rparr>"
      using en by (simp add: range_alias_enumerates)
    with None Suc rv show ?thesis by simp
  next
    case (Some layer)
    then have ne: "layer \<noteq> []" using assms(2) by (auto simp: ran_def)
    have ra: "range_alias (alias n) (pathParts ! n) \<lparr>Module = [], Layer = []\<rparr>
                 = \<lparr>Module = [], Layer = layer\<rparr>"
      using en Some by (simp add: range_alias_enumerates)
    show ?thesis
    proof (cases n)
      case 0
      with Some ra rv show ?thesis by simp
    next
      case (Suc k)
      then have "k < length pathParts" using n by simp
      then have "rev (take (Suc k) pathParts) = pathParts ! k # rev (take k pathParts)"
        by (simp add: take_Suc_conv_app_nth)
      with Suc Some ra rv ne show ?thesis by simp
    qed
  qed
qed

lemma walk_parts_represents:
  assumes "represents alias1 m" and "represents alias2 m"
  shows "walk_parts alias1 pathParts n metadata = walk_parts alias2 pathParts n metadata"
proof (induction n arbitrary: metadata)
  case 0
  show ?case by simp
next
  case (Suc n)
  have "enumerates (alias1 n) m" "enumerates (alias2 n) m"
    using assms by (simp_all add: represents_def)
  then have "range_alias (alias1 n) (pathParts ! n) metadata
               = range_alias (alias2 n) (pathParts ! n) metadata"
    by (simp add: range_alias_enumerates)
  with Suc.IH show ?case by (simp add: Let_def)
qed

lemma walk_parts_Module_Layer:
  "Module metadata = [] \<Longrightarrow>
   Module (walk_parts alias pathParts n metadata) \<noteq> [] \<Longrightarrow>
   Layer (walk_parts alias pathParts n metadata) \<noteq> []"
proof (induction n arbitrary: metadata)
  case 0
  then show ?case by simp
next
  case (Suc n)
  show ?case
  proof (cases "Layer metadata \<noteq> []")
    case True
    then show ?thesis by simp
  next
    case False
    with Suc.prems Suc.IH [of "range_alias (alias n) (pathParts ! n) metadata"]
    show ?thesis by (simp add: range_alias_Module)
  qed
qed

lemma ParseLayerMetadata_Module_Layer:
  "Module (ParseLayerMetadata path alias) \<noteq> [] \<Longrightarrow> Layer (ParseLayerMetadata path alias) \<noteq> []"
  unfolding ParseLayerMetadata_def Let_def
  by (rule walk_parts_Module_Layer) simp_all

section \<open>The decision of \<open>validateImport\<close>\<close>

lemma layersHierarchy_nonneg: "0 \<le> index_int layersHierarchy layer"
  by (simp add: index_int_def layersHierarchy_def)

lemma layersHierarchy_empty: "index_int layersHierarchy [] = 0"
  by (simp add: index_int_def layersHierarchy_def LayerDomain_def LayerApplication_def
      LayerInterfaces_def LayerInfrastructure_def)

lemma layersHierarchy_weights:
  "index_int layersHierarchy LayerDomain = 1"
  "index_int layersHierarchy LayerApplication = 2"
  "index_int layersHierarchy LayerInterfaces = 3"
  "index_int layersHierarchy LayerInfrastructure = 4"
  by (simp_all add: index_int_def layersHierarchy_def LayerDomain_def LayerApplication_def
      LayerInterfaces_def LayerInfrastructure_def)

lemma validateImport_violation:
  assumes "importMeta = fst (fileMetadata v (TrimPrefix (TrimSuffix imp [CHR 0x22]) [CHR 0x22]))"
  shows "fst (validateImport v imp importerMeta path) \<noteq> [] \<longleftrightarrow>
           (if Module importMeta = Module importerMeta
            then index_int layersHierarchy (Layer importMeta)
                   > index_int layersHierarchy (Layer importerMeta)
            else Layer importMeta \<noteq> []
                 \<and> (Layer importMeta \<noteq> LayerInterfaces \<or> Layer importerMeta \<noteq> LayerInfrastructure))"
  using assms by (simp add: validateImport_def Let_def split: prod.splits)

lemma unquote_quoted:
  "TrimPrefix (TrimSuffix (quoted importPath) [CHR 0x22]) [CHR 0x22] = importPath"
  by (simp add: quoted_def TrimSuffix_def TrimPrefix_def HasSuffix_def HasPrefix_def)

lemma validateImport_validator:
  "snd (validateImport v imp importerMeta path)
     = snd (fileMetadata v (TrimPrefix (TrimSuffix imp [CHR 0x22]) [CHR 0x22]))"
  by (simp add: validateImport_def Let_def split: prod.splits)

section \<open>The cache of a reachable validator\<close>

lemma fileMetadata_alias: "alias' (snd (fileMetadata v path)) = alias' v"
  by (simp add: fileMetadata_def Let_def split: option.splits)

lemma reachable_cache:
  "reachable v \<Longrightarrow> filesMetadata v path = Some metadata \<Longrightarrow>
   metadata = ParseLayerMetadata path (alias' v)"
proof (induction arbitrary: path metadata rule: reachable.induct)
  case (new table)
  then show ?case by (simp add: NewValidator_def)
next
  case (lookup v looked_up)
  show ?case
  proof (cases "filesMetadata v looked_up")
    case None
    with lookup show ?thesis
      by (cases "path = looked_up") (auto simp: fileMetadata_def Let_def)
  next
    case (Some cached)
    with lookup show ?thesis by (simp add: fileMetadata_def)
  qed
qed

lemma fileMetadata_reachable:
  "reachable v \<Longrightarrow> fst (fileMetadata v path) = ParseLayerMetadata path (alias' v)"
proof (cases "filesMetadata v path")
  case None
  then show ?thesis by (simp add: fileMetadata_def Let_def index_metadata_def)
next
  case (Some cached)
  assume "reachable v"
  then have "cached = ParseLayerMetadata path (alias' v)" using Some by (rule reachable_cache)
  with Some show ?thesis by (simp add: fileMetadata_def)
qed

lemma fileMetadata_cached:
  "filesMetadata (snd (fileMetadata v path)) path = Some (fst (fileMetadata v path))"
  by (simp add: fileMetadata_def Let_def index_metadata_def split: option.splits)

lemma fileMetadata_hit:
  "filesMetadata v path = Some metadata \<Longrightarrow> fileMetadata v path = (metadata, v)"
  by (simp add: fileMetadata_def)

lemma fileMetadata_miss:
  "filesMetadata v path = None \<Longrightarrow>
   fileMetadata v path =
     (ParseLayerMetadata path (alias' v),
      v\<lparr>filesMetadata := (filesMetadata v)(path \<mapsto> ParseLayerMetadata path (alias' v))\<rparr>)"
  by (simp add: fileMetadata_def Let_def index_metadata_def)

lemma fileMetadata_retains:
  "filesMetadata v other = Some kept \<Longrightarrow>
   filesMetadata (snd (fileMetadata v path)) other = Some kept"
  by (auto simp: fileMetadata_def Let_def split: option.splits)

lemma lookups_retains:
  "filesMetadata v other = Some kept \<Longrightarrow> filesMetadata (lookups v paths) other = Some kept"
  by (induction paths arbitrary: v) (simp_all add: fileMetadata_retains)

lemma lookups_reachable: "reachable v \<Longrightarrow> reachable (lookups v paths)"
  by (induction paths arbitrary: v) (simp_all add: reachable.lookup)

lemma validateImport_retains:
  "filesMetadata v other = Some kept \<Longrightarrow>
   filesMetadata (snd (validateImport v imp importerMeta path)) other = Some kept"
  by (simp add: validateImport_validator fileMetadata_retains)

lemma ImportsLoop_retains:
  "filesMetadata (fst s) other = Some kept \<Longrightarrow>
   filesMetadata (fst (ImportsLoop ignoredPackages importerMeta path imps s)) other = Some kept"
proof (induction ignoredPackages importerMeta path imps s rule: ImportsLoop.induct)
  case (1 ignoredPackages importerMeta path s)
  then show ?case by simp
next
  case (2 ignoredPackages importerMeta path imp rest v errors)
  show ?case
  proof (cases "ignored imp ignoredPackages")
    case True
    with 2 show ?thesis by simp
  next
    case False
    obtain validationErrors v' where
      vi: "validateImport v imp importerMeta path = (validationErrors, v')"
      by (cases "validateImport v imp importerMeta path")
    from vi "2.prems" have "filesMetadata v' other = Some kept"
      using validateImport_retains [of v other kept imp importerMeta path] by simp
    with "2.IH"(2) [OF False vi [symmetric] refl] False vi show ?thesis by simp
  qed
qed

lemma validateImport_reachable:
  "reachable v \<Longrightarrow> reachable (snd (validateImport v imp importerMeta path))"
  by (simp add: validateImport_validator reachable.lookup)

lemma validateImport_alias: "alias' (snd (validateImport v imp importerMeta path)) = alias' v"
  by (simp add: validateImport_validator fileMetadata_alias)

lemma ImportsLoop_reachable:
  "reachable (fst s) \<Longrightarrow>
   reachable (fst (ImportsLoop ignoredPackages importerMeta path imports s))
   \<and> alias' (fst (ImportsLoop ignoredPackages importerMeta path imports s)) = alias' (fst s)"
proof (induction ignoredPackages importerMeta path "imports" s rule: ImportsLoop.induct)
  case (1 ignoredPackages importerMeta path s)
  then show ?case by simp
next
  case (2 ignoredPackages importerMeta path imp rest v errors)
  show ?case
  proof (cases "ignored imp ignoredPackages")
    case True
    with 2 show ?thesis by simp
  next
    case False
    obtain validationErrors v' where
      vi: "validateImport v imp importerMeta path = (validationErrors, v')"
      by (cases "validateImport v imp importerMeta path")
    from vi "2.prems" have "reachable v'" "alias' v' = alias' v"
      using validateImport_reachable [of v imp importerMeta path]
        validateImport_alias [of v imp importerMeta path] by simp_all
    with "2.IH"(2) [OF False vi [symmetric] refl] False vi show ?thesis by simp
  qed
qed

section \<open>The callback and the walk\<close>

lemma walkFn_unfold:
  "walkFn ignoreTests ignoredPackages e (v, errors) =
     (if entry_fi e = None then Panics NilDereference
      else if \<not> reaches_parser ignoreTests e then Returns ((v, errors), None)
      else (case entry_parse e of
              Inl err \<Rightarrow> Panics (ParsePanic err)
            | Inr imps \<Rightarrow>
                if Layer (fst (fileMetadata v (entry_path e))) = []
                   \<or> Module (fst (fileMetadata v (entry_path e))) = []
                then Returns ((snd (fileMetadata v (entry_path e)), errors), None)
                else Returns (ImportsLoop ignoredPackages (fst (fileMetadata v (entry_path e)))
                                (entry_path e) imps (snd (fileMetadata v (entry_path e)), errors),
                              None)))"
  by (auto simp: walkFn_def reaches_parser_def Let_def split: option.splits sum.splits prod.splits)

lemma walkFn_reachable:
  assumes "reachable v"
    and "walkFn ignoreTests ignoredPackages e (v, errors) = Returns ((v', errors'), err)"
  shows "reachable v' \<and> alias' v' = alias' v \<and> err = None"
proof -
  let ?v1 = "snd (fileMetadata v (entry_path e))"
  have v1: "reachable ?v1" "alias' ?v1 = alias' v"
    using assms(1) by (simp_all add: reachable.lookup fileMetadata_alias)
  have loop: "reachable (fst (ImportsLoop ignoredPackages importerMeta (entry_path e) imps (?v1, errors)))
      \<and> alias' (fst (ImportsLoop ignoredPackages importerMeta (entry_path e) imps (?v1, errors))) = alias' v"
    for imps importerMeta
    using ImportsLoop_reachable [of "(?v1, errors)" ignoredPackages importerMeta "entry_path e" imps] v1
    by simp
  show ?thesis
  proof (cases "entry_parse e")
    case (Inl parse_error)
    with assms show ?thesis by (auto simp: walkFn_unfold split: if_splits)
  next
    case (Inr imps)
    let ?looped = "ImportsLoop ignoredPackages (fst (fileMetadata v (entry_path e)))
                     (entry_path e) imps (?v1, errors)"
    from assms(2) Inr consider "v' = v" "err = None" | "v' = ?v1" "err = None"
      | "(v', errors') = ?looped" "err = None"
      by (auto simp: walkFn_unfold split: if_splits)
    then show ?thesis
    proof cases
      case 1
      with assms(1) show ?thesis by simp
    next
      case 2
      with v1 show ?thesis by simp
    next
      case 3
      then have "v' = fst ?looped" by (metis fst_conv)
      with loop 3 show ?thesis by simp
    qed
  qed
qed

lemma Walk_reachable:
  "reachable v \<Longrightarrow>
   Walk es (walkFn ignoreTests ignoredPackages) (v, errors) = Returns ((v', errors'), err) \<Longrightarrow>
   reachable v' \<and> alias' v' = alias' v \<and> err = None"
proof (induction es arbitrary: v errors)
  case Nil
  then show ?case by simp
next
  case (Cons e es)
  show ?case
  proof (cases "walkFn ignoreTests ignoredPackages e (v, errors)")
    case (Panics p)
    with Cons.prems show ?thesis by simp
  next
    case (Returns r)
    obtain v1 errors1 err1 where r: "r = ((v1, errors1), err1)" by (cases r) auto
    with Returns Cons.prems(1) have v1: "reachable v1 \<and> alias' v1 = alias' v \<and> err1 = None"
      using walkFn_reachable by blast
    with Returns r Cons.prems(2) have
      "Walk es (walkFn ignoreTests ignoredPackages) (v1, errors1) = Returns ((v', errors'), err)"
      by simp
    with Cons.IH v1 show ?thesis by metis
  qed
qed

lemma Validate_reachable:
  assumes "reachable v"
    and "Validate under_root v root ignoreTests ignoredPackages = Returns (result, v')"
  shows "reachable v' \<and> alias' v' = alias' v"
proof (cases "Walk under_root (walkFn ignoreTests ignoredPackages) (v, [])")
  case (Panics p)
  with assms(2) show ?thesis by (simp add: Validate_def)
next
  case (Returns r)
  obtain v1 errors1 err1 where r: "r = ((v1, errors1), err1)" by (cases r) auto
  with Returns assms(1) have "reachable v1 \<and> alias' v1 = alias' v \<and> err1 = None"
    using Walk_reachable by blast
  moreover from Returns r assms(2) have "v' = v1"
    by (simp add: Validate_def split: option.splits)
  ultimately show ?thesis by simp
qed

lemma walkFn_nil:
  "walkFn ignoreTests ignoredPackages e s = Returns (s', err) \<Longrightarrow> err = None"
  by (cases s) (auto simp: walkFn_unfold split: if_splits sum.splits)

lemma walkFn_retains:
  assumes "filesMetadata v other = Some kept"
    and "walkFn ignoreTests ignoredPackages e (v, errors) = Returns ((v', errors'), err)"
  shows "filesMetadata v' other = Some kept"
proof -
  let ?v1 = "snd (fileMetadata v (entry_path e))"
  have v1: "filesMetadata ?v1 other = Some kept"
    using assms(1) by (rule fileMetadata_retains)
  have loop: "filesMetadata
                (fst (ImportsLoop ignoredPackages importerMeta (entry_path e) imps (?v1, errors)))
                other = Some kept"
    for imps importerMeta
    using ImportsLoop_retains [of "(?v1, errors)" other kept ignoredPackages importerMeta
        "entry_path e" imps] v1
    by simp
  show ?thesis
  proof (cases "entry_parse e")
    case (Inl parse_error)
    with assms show ?thesis by (auto simp: walkFn_unfold split: if_splits)
  next
    case (Inr imps)
    let ?looped = "ImportsLoop ignoredPackages (fst (fileMetadata v (entry_path e)))
                     (entry_path e) imps (?v1, errors)"
    from assms(2) Inr consider "v' = v" | "v' = ?v1" | "(v', errors') = ?looped"
      by (auto simp: walkFn_unfold split: if_splits)
    then show ?thesis
    proof cases
      case 1
      with assms(1) show ?thesis by simp
    next
      case 2
      with v1 show ?thesis by simp
    next
      case 3
      then have "v' = fst ?looped" by (metis fst_conv)
      with loop show ?thesis by simp
    qed
  qed
qed

lemma Walk_retains:
  "filesMetadata v other = Some kept \<Longrightarrow>
   Walk es (walkFn ignoreTests ignoredPackages) (v, errors) = Returns ((v', errors'), err) \<Longrightarrow>
   filesMetadata v' other = Some kept"
proof (induction es arbitrary: v errors)
  case Nil
  then show ?case by simp
next
  case (Cons e es)
  show ?case
  proof (cases "walkFn ignoreTests ignoredPackages e (v, errors)")
    case (Panics p)
    with Cons.prems show ?thesis by simp
  next
    case (Returns r)
    obtain v1 errors1 err1 where r: "r = ((v1, errors1), err1)" by (cases r) auto
    with Returns Cons.prems(1) have v1: "filesMetadata v1 other = Some kept"
      using walkFn_retains by blast
    from Returns r have "err1 = None" using walkFn_nil by blast
    with Returns r Cons.prems(2) have
      "Walk es (walkFn ignoreTests ignoredPackages) (v1, errors1) = Returns ((v', errors'), err)"
      by simp
    with Cons.IH v1 show ?thesis by blast
  qed
qed

lemma Validate_retains:
  assumes "filesMetadata v other = Some kept"
    and "Validate under_root v root ignoreTests ignoredPackages = Returns (result, v')"
  shows "filesMetadata v' other = Some kept"
proof (cases "Walk under_root (walkFn ignoreTests ignoredPackages) (v, [])")
  case (Panics p)
  with assms(2) show ?thesis by (simp add: Validate_def)
next
  case (Returns r)
  obtain v1 errors1 err1 where r: "r = ((v1, errors1), err1)" by (cases r) auto
  with Returns assms(1) have "filesMetadata v1 other = Some kept"
    using Walk_retains by blast
  moreover from Returns r assms(2) have "v' = v1"
    by (simp add: Validate_def split: option.splits)
  ultimately show ?thesis by simp
qed

lemma Walk_nil:
  "Walk es (walkFn ignoreTests ignoredPackages) s = Returns (s', err) \<Longrightarrow> err = None"
proof (induction es arbitrary: s)
  case Nil
  then show ?case by simp
next
  case (Cons e es)
  then show ?case
    by (auto split: outcome.splits option.splits dest: walkFn_nil)
qed

lemma Validate_never_returns_error:
  "\<not> returns_error (Validate under_root v root ignoreTests ignoredPackages)"
proof (cases "Walk under_root (walkFn ignoreTests ignoredPackages) (v, [])")
  case (Panics p)
  then show ?thesis by (simp add: Validate_def returns_error_def)
next
  case (Returns r)
  obtain s' err where "r = (s', err)" by (cases r)
  with Returns have "r = (s', None)" using Walk_nil by blast
  with Returns show ?thesis
    by (simp add: Validate_def returns_error_def split: prod.splits)
qed

lemma Walk_append:
  "Walk (before @ after) fn s =
     (case Walk before fn s of
        Panics p \<Rightarrow> Panics p
      | Returns (s', Some err) \<Rightarrow> Returns (s', Some err)
      | Returns (s', None) \<Rightarrow> Walk after fn s')"
  by (induction before arbitrary: s) (auto split: outcome.splits option.splits)

lemma walkFn_no_panic:
  "\<not> callback_panics ignoreTests e \<Longrightarrow>
   \<exists>s'. walkFn ignoreTests ignoredPackages e s = Returns (s', None)"
  by (cases s) (auto simp: walkFn_unfold callback_panics_def split: sum.splits)

lemma Walk_no_panic:
  "\<forall>e \<in> set es. \<not> callback_panics ignoreTests e \<Longrightarrow>
   \<exists>s'. Walk es (walkFn ignoreTests ignoredPackages) s = Returns (s', None)"
proof (induction es arbitrary: s)
  case Nil
  show ?case by simp
next
  case (Cons e es)
  then obtain s1 where "walkFn ignoreTests ignoredPackages e s = Returns (s1, None)"
    using walkFn_no_panic [of ignoreTests e ignoredPackages s] by auto
  moreover obtain s2 where "Walk es (walkFn ignoreTests ignoredPackages) s1 = Returns (s2, None)"
    using Cons by fastforce
  ultimately show ?case by simp
qed

section \<open>Ignored packages\<close>

lemma ignored_iff: "ignored imp ignoredPackages \<longleftrightarrow> exempt ignoredPackages imp"
  by (induction ignoredPackages) (auto simp: exempt_def)

lemma ImportsLoop_filter:
  "ImportsLoop ignoredPackages importerMeta path
     (filter (\<lambda>imp. \<not> exempt ignoredPackages imp) imps) s
   = ImportsLoop ignoredPackages importerMeta path imps s"
proof (induction ignoredPackages importerMeta path imps s rule: ImportsLoop.induct)
  case (1 ignoredPackages importerMeta path s)
  show ?case by simp
next
  case (2 ignoredPackages importerMeta path imp rest v errors)
  show ?case
  proof (cases "ignored imp ignoredPackages")
    case True
    with "2.IH"(1) [OF True] show ?thesis by (simp add: ignored_iff)
  next
    case False
    obtain validationErrors v' where
      vi: "validateImport v imp importerMeta path = (validationErrors, v')"
      by (cases "validateImport v imp importerMeta path")
    from "2.IH"(2) [OF False vi [symmetric] refl] False vi show ?thesis
      by (simp add: ignored_iff)
  qed
qed

lemma walkFn_without_exempt:
  "walkFn ignoreTests ignoredPackages (without_exempt ignoredPackages e) s
     = walkFn ignoreTests ignoredPackages e s"
proof (cases s)
  case (Pair v errors)
  show ?thesis
  proof (cases "entry_parse e")
    case (Inl parse_error)
    then show ?thesis
      by (simp add: Pair walkFn_unfold without_exempt_def reaches_parser_def)
  next
    case (Inr imps)
    then show ?thesis
      by (simp add: Pair walkFn_unfold without_exempt_def reaches_parser_def ImportsLoop_filter)
  qed
qed

lemma Walk_without_exempt:
  "Walk (map (without_exempt ignoredPackages) es) (walkFn ignoreTests ignoredPackages) s
     = Walk es (walkFn ignoreTests ignoredPackages) s"
  by (induction es arbitrary: s)
    (auto simp: walkFn_without_exempt split: outcome.splits option.splits)

section \<open>The claims\<close>

subsection \<open>Imports inside a module\<close>

text \<open>
  Claim C1. For an importer and an imported target that are classified with the same
  non-empty module, \<open>validateImport\<close> reports a violation if and only if the weight of
  the imported layer in \<open>layersHierarchy\<close> is strictly greater than the weight of the
  importer's layer, the weights being 1 for the domain, 2 for the application, 3 for
  the interfaces and 4 for the infrastructure. So an import of the same layer or of a
  layer of lower weight in the same module is no violation. The imported target is
  classified through the cache, as the source does.
\<close>

theorem validateImport_same_module:
  assumes "importMeta = fst (fileMetadata v (TrimPrefix (TrimSuffix imp [CHR 0x22]) [CHR 0x22]))"
    and "Module importMeta = Module importerMeta"
    and "Module importerMeta \<noteq> []"
  shows "(fst (validateImport v imp importerMeta path) \<noteq> [] \<longleftrightarrow>
            index_int layersHierarchy (Layer importMeta)
              > index_int layersHierarchy (Layer importerMeta))
         \<and> index_int layersHierarchy LayerDomain = 1
         \<and> index_int layersHierarchy LayerApplication = 2
         \<and> index_int layersHierarchy LayerInterfaces = 3
         \<and> index_int layersHierarchy LayerInfrastructure = 4"
  using validateImport_violation [OF assms(1)] assms(2) by (simp add: layersHierarchy_weights)

text \<open>
  The first scenario of the specification: \<open>modA/domain/user.go\<close> imports
  \<open>modA/infra/db\<close>, and the weight 4 of the infrastructure is above the weight 1 of the
  domain.
\<close>

theorem validateImport_same_module_witness:
  "Module (fst (fileMetadata scenario_validator ''modA/infra/db'')) = ''modA''
   \<and> Layer (fst (fileMetadata scenario_validator ''modA/infra/db'')) = LayerInfrastructure
   \<and> fst (validateImport scenario_validator (quoted ''modA/infra/db'')
             \<lparr>Module = ''modA'', Layer = LayerDomain\<rparr> ''modA/domain/user.go'') \<noteq> []"
proof -
  let ?importMeta = "fst (fileMetadata scenario_validator ''modA/infra/db'')"
  have meta: "Module ?importMeta = ''modA''" "Layer ?importMeta = LayerInfrastructure"
    by code_simp+
  have "fst (validateImport scenario_validator (quoted ''modA/infra/db'')
               \<lparr>Module = ''modA'', Layer = LayerDomain\<rparr> ''modA/domain/user.go'') \<noteq> [] \<longleftrightarrow>
        index_int layersHierarchy (Layer ?importMeta)
          > index_int layersHierarchy (Layer \<lparr>Module = ''modA'', Layer = LayerDomain\<rparr>)"
    using validateImport_same_module
      [of ?importMeta scenario_validator "quoted ''modA/infra/db''"
          "\<lparr>Module = ''modA'', Layer = LayerDomain\<rparr>" "''modA/domain/user.go''"]
    by (simp add: unquote_quoted meta)
  then show ?thesis by (simp add: meta layersHierarchy_weights)
qed

subsection \<open>Imports across modules\<close>

text \<open>
  Claim C2. For an importer and an imported target whose modules differ, the imported
  layer being non-empty, \<open>validateImport\<close> reports a violation if and only if it is not
  the case that the imported layer is the interfaces and the importer's layer is the
  infrastructure: the weights play no part, and an import of the same layer of another
  module is a violation.
\<close>

theorem validateImport_cross_module:
  assumes "importMeta = fst (fileMetadata v (TrimPrefix (TrimSuffix imp [CHR 0x22]) [CHR 0x22]))"
    and "Module importMeta \<noteq> Module importerMeta"
    and "Layer importMeta \<noteq> []"
  shows "fst (validateImport v imp importerMeta path) \<noteq> [] \<longleftrightarrow>
           \<not> (Layer importMeta = LayerInterfaces \<and> Layer importerMeta = LayerInfrastructure)"
  using validateImport_violation [OF assms(1)] assms(2,3) by simp

text \<open>
  An interfaces file of \<open>modA\<close> imports the interfaces of \<open>modB\<close>: the same layer, and a
  violation.
\<close>

theorem validateImport_cross_module_witness:
  "Module (fst (fileMetadata scenario_validator ''modB/interfaces/api'')) = ''modB''
   \<and> Layer (fst (fileMetadata scenario_validator ''modB/interfaces/api'')) = LayerInterfaces
   \<and> fst (validateImport scenario_validator (quoted ''modB/interfaces/api'')
             \<lparr>Module = ''modA'', Layer = LayerInterfaces\<rparr> ''modA/interfaces/http.go'') \<noteq> []"
proof -
  let ?importMeta = "fst (fileMetadata scenario_validator ''modB/interfaces/api'')"
  have meta: "Module ?importMeta = ''modB''" "Layer ?importMeta = LayerInterfaces"
    by code_simp+
  have layers: "LayerInterfaces \<noteq> []" "LayerInterfaces \<noteq> LayerInfrastructure"
    by (simp_all add: LayerInterfaces_def LayerInfrastructure_def)
  have "fst (validateImport scenario_validator (quoted ''modB/interfaces/api'')
               \<lparr>Module = ''modA'', Layer = LayerInterfaces\<rparr> ''modA/interfaces/http.go'') \<noteq> [] \<longleftrightarrow>
        \<not> (Layer ?importMeta = LayerInterfaces
           \<and> Layer \<lparr>Module = ''modA'', Layer = LayerInterfaces\<rparr> = LayerInfrastructure)"
    using validateImport_cross_module
      [of ?importMeta scenario_validator "quoted ''modB/interfaces/api''"
          "\<lparr>Module = ''modA'', Layer = LayerInterfaces\<rparr>" "''modA/interfaces/http.go''"]
    by (simp add: unquote_quoted meta layers)
  then show ?thesis by (simp add: meta layers)
qed

subsection \<open>The walk over the segments of a path\<close>

text \<open>
  Claim C3, amended. For every path and every alias table none of whose layers is the
  empty string, \<open>ParseLayerMetadata\<close> splits the path on the slash and walks the
  segments from last to first: the first segment that is an alias key sets the layer,
  the next segment toward the start of the path becomes the module and the walk stops
  there; without a matching segment the layer and the module are empty; when the
  matching segment is the first path component the module stays empty. That is, the
  result is the one of \<open>Classify\<close>, whatever the orders in which the \<open>range\<close> statement
  enumerates the table.
\<close>

theorem ParseLayerMetadata_walk:
  assumes "represents alias m" and "[] \<notin> ran m"
  shows "ParseLayerMetadata path alias = Classify path m"
  using walk_parts_classify [OF assms, of "length (Split path CHR ''/'')" "Split path CHR ''/''"]
  by (simp add: ParseLayerMetadata_def Classify_def)

theorem ParseLayerMetadata_walk_witness:
  "represents (in_order scenario_aliases) (map_of scenario_aliases)
   \<and> [] \<notin> ran (map_of scenario_aliases)
   \<and> ParseLayerMetadata ''modA/domain/user.go'' (in_order scenario_aliases)
       = Classify ''modA/domain/user.go'' (map_of scenario_aliases)
   \<and> Classify ''modA/domain/user.go'' (map_of scenario_aliases)
       = \<lparr>Module = ''modA'', Layer = LayerDomain\<rparr>"
proof -
  have r: "represents (in_order scenario_aliases) (map_of scenario_aliases)"
    by (simp add: represents_def in_order_def enumerates_def scenario_aliases_def)
  have n: "[] \<notin> ran (map_of scenario_aliases)"
    by (simp add: ran_distinct scenario_aliases_def LayerDomain_def LayerApplication_def
        LayerInterfaces_def LayerInfrastructure_def)
  have c: "Classify ''modA/domain/user.go'' (map_of scenario_aliases)
             = \<lparr>Module = ''modA'', Layer = LayerDomain\<rparr>"
    by code_simp
  from ParseLayerMetadata_walk [OF r n, of "''modA/domain/user.go''"] r n c
  show ?thesis by simp
qed

text \<open>
  As the claim is written, for every alias table, it fails on a table that gives an
  alias the empty layer: the source takes an empty layer for no layer yet, so the
  walk goes past the segment \<open>x\<close> and classifies the path by \<open>domain\<close>.
\<close>

theorem ParseLayerMetadata_walk_counterexample:
  "represents (in_order [(''x'', []), (''domain'', LayerDomain)])
     (map_of [(''x'', []), (''domain'', LayerDomain)])
   \<and> ParseLayerMetadata ''m/domain/x/f.go'' (in_order [(''x'', []), (''domain'', LayerDomain)])
       = \<lparr>Module = ''m'', Layer = LayerDomain\<rparr>
   \<and> Classify ''m/domain/x/f.go'' (map_of [(''x'', []), (''domain'', LayerDomain)])
       = \<lparr>Module = ''domain'', Layer = []\<rparr>
   \<and> ParseLayerMetadata ''m/domain/x/f.go'' (in_order [(''x'', []), (''domain'', LayerDomain)])
       \<noteq> Classify ''m/domain/x/f.go'' (map_of [(''x'', []), (''domain'', LayerDomain)])"
proof -
  have r: "represents (in_order [(''x'', []), (''domain'', LayerDomain)])
             (map_of [(''x'', []), (''domain'', LayerDomain)])"
    by (simp add: represents_def in_order_def enumerates_def)
  have p: "ParseLayerMetadata ''m/domain/x/f.go'' (in_order [(''x'', []), (''domain'', LayerDomain)])
             = \<lparr>Module = ''m'', Layer = LayerDomain\<rparr>"
    by code_simp
  have c: "Classify ''m/domain/x/f.go'' (map_of [(''x'', []), (''domain'', LayerDomain)])
             = \<lparr>Module = ''domain'', Layer = []\<rparr>"
    by code_simp
  from r p c show ?thesis by simp
qed

subsection \<open>A file that does not parse\<close>

text \<open>
  Claim C4, amended. If a file that the callback takes to the parser cannot be parsed
  for its imports, and the callback has not panicked at an entry before it, the whole
  run stops there by a panic that carries the parser's error: \<open>Validate\<close> returns
  nothing to its caller, so no violation list, whatever the entries after the file and
  the violations found before it, and the file is not skipped.
\<close>

theorem unparsable_file_panics:
  assumes "\<forall>b \<in> set before. \<not> callback_panics ignoreTests b"
    and "reaches_parser ignoreTests e"
    and "entry_parse e = Inl err"
  shows "Validate (before @ e # after) v root ignoreTests ignoredPackages = Panics (ParsePanic err)"
proof -
  obtain s1 where "Walk before (walkFn ignoreTests ignoredPackages) (v, []) = Returns (s1, None)"
    using Walk_no_panic [OF assms(1)] by blast
  moreover have "walkFn ignoreTests ignoredPackages e s1 = Panics (ParsePanic err)"
    using assms(2,3) by (cases s1) (simp add: walkFn_unfold reaches_parser_def)
  ultimately show ?thesis by (simp add: Validate_def Walk_append)
qed

theorem unparsable_file_panics_witness:
  "\<not> callback_panics False \<lparr>entry_path = ''modA'', entry_fi = Some True, entry_parse = Inl []\<rparr>
   \<and> reaches_parser False
       \<lparr>entry_path = ''modA/domain/user.go'', entry_fi = Some False,
        entry_parse = Inl ''expected package''\<rparr>
   \<and> Validate
       [\<lparr>entry_path = ''modA'', entry_fi = Some True, entry_parse = Inl []\<rparr>,
        \<lparr>entry_path = ''modA/domain/user.go'', entry_fi = Some False,
         entry_parse = Inl ''expected package''\<rparr>,
        \<lparr>entry_path = ''modA/infra/db.go'', entry_fi = Some False, entry_parse = Inr []\<rparr>]
       scenario_validator ''modA'' False []
     = Panics (ParsePanic ''expected package'')"
proof -
  let ?dir = "\<lparr>entry_path = ''modA'', entry_fi = Some True, entry_parse = Inl []\<rparr>"
  let ?file = "\<lparr>entry_path = ''modA/domain/user.go'', entry_fi = Some False,
                entry_parse = Inl ''expected package''\<rparr>"
  let ?next = "\<lparr>entry_path = ''modA/infra/db.go'', entry_fi = Some False, entry_parse = Inr []\<rparr>"
  have d: "\<not> callback_panics False ?dir"
    by (simp add: callback_panics_def reaches_parser_def)
  have f: "reaches_parser False ?file"
    by (simp add: reaches_parser_def HasSuffix_def HasPrefix_def)
  have "\<forall>b \<in> set [?dir]. \<not> callback_panics False b" using d by simp
  from unparsable_file_panics [OF this f, of "''expected package''" "[?next]"
      scenario_validator "''modA''" "[]"] d f
  show ?thesis by simp
qed

text \<open>
  As the claim is written, with the error returned to the caller, it fails: the
  callback panics, and \<open>Validate\<close> returns no error.
\<close>

theorem unparsable_file_panics_counterexample:
  "Validate
     [\<lparr>entry_path = ''modA/domain/user.go'', entry_fi = Some False,
       entry_parse = Inl ''expected package''\<rparr>]
     scenario_validator ''modA'' False []
     = Panics (ParsePanic ''expected package'')
   \<and> \<not> returns_error
         (Validate
            [\<lparr>entry_path = ''modA/domain/user.go'', entry_fi = Some False,
              entry_parse = Inl ''expected package''\<rparr>]
            scenario_validator ''modA'' False [])"
  by (simp add: Validate_def walkFn_def returns_error_def HasSuffix_def HasPrefix_def)

subsection \<open>An import that no alias classifies\<close>

text \<open>
  Claim C5. For every import whose classified layer is empty, \<open>validateImport\<close> returns
  no violation, whatever the classification of the importer.
\<close>

theorem validateImport_unclassified_import:
  assumes "Layer (fst (fileMetadata v (TrimPrefix (TrimSuffix imp [CHR 0x22]) [CHR 0x22]))) = []"
  shows "fst (validateImport v imp importerMeta path) = []"
proof -
  have "\<not> 0 > index_int layersHierarchy (Layer importerMeta)"
    using layersHierarchy_nonneg [of "Layer importerMeta"] by simp
  with assms show ?thesis
    using validateImport_violation [OF refl, of v imp importerMeta path]
    by (simp add: layersHierarchy_empty split: if_splits)
qed

text \<open>The fifth scenario: an application file imports \<open>thirdparty/lib\<close>.\<close>

theorem validateImport_unclassified_import_witness:
  "Layer (fst (fileMetadata scenario_validator ''thirdparty/lib'')) = []
   \<and> fst (validateImport scenario_validator (quoted ''thirdparty/lib'')
             \<lparr>Module = ''modA'', Layer = LayerApplication\<rparr> ''modA/application/service.go'') = []"
proof -
  have l: "Layer (fst (fileMetadata scenario_validator ''thirdparty/lib'')) = []"
    by code_simp
  then have "Layer (fst (fileMetadata scenario_validator
               (TrimPrefix (TrimSuffix (quoted ''thirdparty/lib'') [CHR 0x22]) [CHR 0x22]))) = []"
    by (simp add: unquote_quoted)
  from validateImport_unclassified_import [OF this] l show ?thesis by simp
qed

subsection \<open>A file that no alias classifies\<close>

text \<open>
  Claim C6. A discovered file whose own classification has an empty layer or an empty
  module is skipped: none of its imports is checked and none adds an entry to the
  violation list that \<open>Validate\<close> returns. The run gives what it gives when the file
  has no import at all, and the callback, at such a file, returns with the violation
  list as it was and with no other write to the cache than the file's own path.
\<close>

theorem unclassified_importer_skipped:
  assumes "reachable v"
    and "Layer (ParseLayerMetadata (entry_path e) (alias' v)) = []
         \<or> Module (ParseLayerMetadata (entry_path e) (alias' v)) = []"
  shows "Validate (before @ e\<lparr>entry_parse := Inr imps\<rparr> # after) v root ignoreTests ignoredPackages
           = Validate (before @ e\<lparr>entry_parse := Inr []\<rparr> # after) v root ignoreTests ignoredPackages
         \<and> (reaches_parser ignoreTests e \<longrightarrow>
              walkFn ignoreTests ignoredPackages (e\<lparr>entry_parse := Inr imps\<rparr>) (v, errors)
                = Returns ((snd (fileMetadata v (entry_path e)), errors), None))"
proof
  show "Validate (before @ e\<lparr>entry_parse := Inr imps\<rparr> # after) v root ignoreTests ignoredPackages
          = Validate (before @ e\<lparr>entry_parse := Inr []\<rparr> # after) v root ignoreTests ignoredPackages"
  proof (cases "Walk before (walkFn ignoreTests ignoredPackages) (v, [])")
    case (Panics p)
    then show ?thesis by (simp add: Validate_def Walk_append)
  next
    case (Returns r)
    obtain v1 errors1 err1 where r: "r = ((v1, errors1), err1)" by (cases r) auto
    with Returns assms(1) have v1: "reachable v1" "alias' v1 = alias' v" "err1 = None"
      using Walk_reachable by blast+
    then have "fst (fileMetadata v1 (entry_path e)) = ParseLayerMetadata (entry_path e) (alias' v)"
      by (simp add: fileMetadata_reachable)
    with assms(2) have
      "walkFn ignoreTests ignoredPackages (e\<lparr>entry_parse := Inr imps\<rparr>) (v1, errors1)
         = walkFn ignoreTests ignoredPackages (e\<lparr>entry_parse := Inr []\<rparr>) (v1, errors1)"
      by (simp add: walkFn_unfold reaches_parser_def)
    with Returns r v1 show ?thesis by (simp add: Validate_def Walk_append)
  qed
next
  have "fst (fileMetadata v (entry_path e)) = ParseLayerMetadata (entry_path e) (alias' v)"
    using assms(1) by (rule fileMetadata_reachable)
  with assms(2) show "reaches_parser ignoreTests e \<longrightarrow>
      walkFn ignoreTests ignoredPackages (e\<lparr>entry_parse := Inr imps\<rparr>) (v, errors)
        = Returns ((snd (fileMetadata v (entry_path e)), errors), None)"
    by (simp add: walkFn_unfold reaches_parser_def)
qed

text \<open>
  The file \<open>domain/user.go\<close> has the layer of the domain and no module. Its import of
  \<open>infra/db\<close>, in the same empty module and of a greater weight, is one that
  \<open>validateImport\<close> reports.
\<close>

theorem unclassified_importer_skipped_witness:
  "reachable scenario_validator
   \<and> Module (ParseLayerMetadata ''domain/user.go'' (alias' scenario_validator)) = []
   \<and> fst (validateImport scenario_validator (quoted ''infra/db'')
            (ParseLayerMetadata ''domain/user.go'' (alias' scenario_validator))
            ''domain/user.go'') \<noteq> []
   \<and> reaches_parser False
       \<lparr>entry_path = ''domain/user.go'', entry_fi = Some False, entry_parse = Inr []\<rparr>
   \<and> Validate
       [\<lparr>entry_path = ''domain/user.go'', entry_fi = Some False,
         entry_parse = Inr [quoted ''infra/db'']\<rparr>]
       scenario_validator ''.'' False []
     = Validate
         [\<lparr>entry_path = ''domain/user.go'', entry_fi = Some False, entry_parse = Inr []\<rparr>]
         scenario_validator ''.'' False []
   \<and> walkFn False []
       \<lparr>entry_path = ''domain/user.go'', entry_fi = Some False,
        entry_parse = Inr [quoted ''infra/db'']\<rparr>
       (scenario_validator, [])
     = Returns ((snd (fileMetadata scenario_validator ''domain/user.go''), []), None)"
proof -
  let ?e = "\<lparr>entry_path = ''domain/user.go'', entry_fi = Some False, entry_parse = Inr []\<rparr>"
  have r: "reachable scenario_validator"
    unfolding scenario_validator_def by (rule reachable.new)
  have m: "Module (ParseLayerMetadata ''domain/user.go'' (alias' scenario_validator)) = []"
    by code_simp
  have i: "fst (validateImport scenario_validator (quoted ''infra/db'')
                 (ParseLayerMetadata ''domain/user.go'' (alias' scenario_validator))
                 ''domain/user.go'') \<noteq> []"
    by code_simp
  have p: "reaches_parser False ?e"
    by (simp add: reaches_parser_def HasSuffix_def HasPrefix_def)
  have "Layer (ParseLayerMetadata (entry_path ?e) (alias' scenario_validator)) = []
        \<or> Module (ParseLayerMetadata (entry_path ?e) (alias' scenario_validator)) = []"
    using m by simp
  from unclassified_importer_skipped [OF r this, of "[]" "[quoted ''infra/db'']" "[]"
      "''.''" False "[]" "[]"] r m i p
  show ?thesis by simp
qed

subsection \<open>The order of the alias table\<close>

text \<open>
  Claim C7. The classification is deterministic: two calls of \<open>ParseLayerMetadata\<close>
  with the same path and the same alias map return the same metadata, whatever the
  orders in which the \<open>range\<close> statement enumerates the map during the one call and
  during the other.
\<close>

theorem ParseLayerMetadata_deterministic:
  assumes "represents alias1 m" and "represents alias2 m"
  shows "ParseLayerMetadata path alias1 = ParseLayerMetadata path alias2"
  using walk_parts_represents [OF assms] by (simp add: ParseLayerMetadata_def)

theorem ParseLayerMetadata_deterministic_witness:
  "represents (in_order scenario_aliases) (map_of scenario_aliases)
   \<and> represents (in_order (rev scenario_aliases)) (map_of scenario_aliases)
   \<and> ParseLayerMetadata ''modA/infra/db.go'' (in_order scenario_aliases)
       = ParseLayerMetadata ''modA/infra/db.go'' (in_order (rev scenario_aliases))"
proof -
  have r1: "represents (in_order scenario_aliases) (map_of scenario_aliases)"
    by (simp add: represents_def in_order_def enumerates_def scenario_aliases_def)
  have d1: "distinct (map fst scenario_aliases)"
    by (simp add: scenario_aliases_def)
  then have d2: "distinct (map fst (rev scenario_aliases))"
    by (metis distinct_rev rev_map)
  have "map_of (rev scenario_aliases) = map_of scenario_aliases"
    using map_of_inject_set [OF d2 d1] by simp
  with d2 have r2: "represents (in_order (rev scenario_aliases)) (map_of scenario_aliases)"
    by (simp add: represents_def in_order_def enumerates_def)
  from ParseLayerMetadata_deterministic [OF r1 r2, of "''modA/infra/db.go''"] r1 r2
  show ?thesis by simp
qed

subsection \<open>The cache\<close>

text \<open>
  Claim C8. The lookup through the cache gives what the computation gives. For every
  validator that a program holds after \<open>NewValidator\<close> and every path, \<open>fileMetadata\<close>
  returns the metadata that \<open>ParseLayerMetadata\<close> returns for the path and the
  validator's alias table, whatever was looked up before. For every validator at all:
  a path that the cache holds is answered with the stored metadata, as it is stored,
  and the validator is left as it is, so nothing is computed; a path that the cache
  does not hold is computed and stored, and the cache is otherwise as before; an entry
  of the cache stays through a lookup, through any run of lookups and through a call
  of \<open>Validate\<close>; and after a first lookup of a path and any lookups of other paths, a
  second lookup of the path returns the metadata of the first one from the cache.
\<close>

theorem fileMetadata_memoizes:
  "(reachable v \<longrightarrow> fst (fileMetadata v path) = ParseLayerMetadata path (alias' v))
   \<and> (filesMetadata v path = Some cached \<longrightarrow> fileMetadata v path = (cached, v))
   \<and> (filesMetadata v path = None \<longrightarrow>
        fileMetadata v path =
          (ParseLayerMetadata path (alias' v),
           v\<lparr>filesMetadata := (filesMetadata v)(path \<mapsto> ParseLayerMetadata path (alias' v))\<rparr>))
   \<and> filesMetadata (snd (fileMetadata v path)) path = Some (fst (fileMetadata v path))
   \<and> (filesMetadata v other = Some kept \<longrightarrow>
        filesMetadata (snd (fileMetadata v path)) other = Some kept
        \<and> filesMetadata (lookups v others) other = Some kept)
   \<and> (filesMetadata v other = Some kept
        \<and> Validate under_root v root ignoreTests ignoredPackages = Returns (result, v') \<longrightarrow>
        filesMetadata v' other = Some kept)
   \<and> fileMetadata (lookups (snd (fileMetadata v path)) others) path
       = (fst (fileMetadata v path), lookups (snd (fileMetadata v path)) others)"
proof (intro conjI impI)
  assume "reachable v"
  then show "fst (fileMetadata v path) = ParseLayerMetadata path (alias' v)"
    by (rule fileMetadata_reachable)
next
  assume "filesMetadata v path = Some cached"
  then show "fileMetadata v path = (cached, v)"
    by (rule fileMetadata_hit)
next
  assume "filesMetadata v path = None"
  then show "fileMetadata v path =
      (ParseLayerMetadata path (alias' v),
       v\<lparr>filesMetadata := (filesMetadata v)(path \<mapsto> ParseLayerMetadata path (alias' v))\<rparr>)"
    by (rule fileMetadata_miss)
next
  show "filesMetadata (snd (fileMetadata v path)) path = Some (fst (fileMetadata v path))"
    by (rule fileMetadata_cached)
next
  assume "filesMetadata v other = Some kept"
  then show "filesMetadata (snd (fileMetadata v path)) other = Some kept"
    by (rule fileMetadata_retains)
next
  assume "filesMetadata v other = Some kept"
  then show "filesMetadata (lookups v others) other = Some kept"
    by (rule lookups_retains)
next
  assume "filesMetadata v other = Some kept
          \<and> Validate under_root v root ignoreTests ignoredPackages = Returns (result, v')"
  then show "filesMetadata v' other = Some kept"
    using Validate_retains by blast
next
  show "fileMetadata (lookups (snd (fileMetadata v path)) others) path
          = (fst (fileMetadata v path), lookups (snd (fileMetadata v path)) others)"
    by (rule fileMetadata_hit) (rule lookups_retains, rule fileMetadata_cached)
qed

text \<open>
  The sixth scenario: the validator looks \<open>modB/interfaces/api\<close> up for a first
  importer, which is a miss, then two other paths, then \<open>modB/interfaces/api\<close> for a
  second importer. And a validator whose cache holds, for a path, something else than
  the classification of the path answers with what the cache holds.
\<close>

theorem fileMetadata_memoizes_witness:
  "reachable scenario_validator
   \<and> filesMetadata scenario_validator ''modB/interfaces/api'' = None
   \<and> fst (fileMetadata scenario_validator ''modB/interfaces/api'')
       = \<lparr>Module = ''modB'', Layer = LayerInterfaces\<rparr>
   \<and> fileMetadata
        (lookups (snd (fileMetadata scenario_validator ''modB/interfaces/api''))
           [''modA/infra/gateway.go'', ''modA/domain/user''])
        ''modB/interfaces/api''
       = (\<lparr>Module = ''modB'', Layer = LayerInterfaces\<rparr>,
          lookups (snd (fileMetadata scenario_validator ''modB/interfaces/api''))
            [''modA/infra/gateway.go'', ''modA/domain/user''])
   \<and> filesMetadata
        (scenario_validator
           \<lparr>filesMetadata := [''modB/interfaces/api'' \<mapsto> \<lparr>Module = ''stale'', Layer = []\<rparr>]\<rparr>)
        ''modB/interfaces/api''
       = Some \<lparr>Module = ''stale'', Layer = []\<rparr>
   \<and> fileMetadata
        (scenario_validator
           \<lparr>filesMetadata := [''modB/interfaces/api'' \<mapsto> \<lparr>Module = ''stale'', Layer = []\<rparr>]\<rparr>)
        ''modB/interfaces/api''
       = (\<lparr>Module = ''stale'', Layer = []\<rparr>,
          scenario_validator
            \<lparr>filesMetadata := [''modB/interfaces/api'' \<mapsto> \<lparr>Module = ''stale'', Layer = []\<rparr>]\<rparr>)"
proof -
  let ?p = "''modB/interfaces/api''"
  let ?stale = "\<lparr>Module = ''stale'', Layer = []\<rparr>"
  let ?w = "scenario_validator\<lparr>filesMetadata := [?p \<mapsto> ?stale]\<rparr>"
  have r: "reachable scenario_validator"
    unfolding scenario_validator_def by (rule reachable.new)
  have n: "filesMetadata scenario_validator ?p = None"
    by (simp add: scenario_validator_def NewValidator_def)
  have c: "ParseLayerMetadata ?p (alias' scenario_validator)
             = \<lparr>Module = ''modB'', Layer = LayerInterfaces\<rparr>"
    by code_simp
  have s: "filesMetadata ?w ?p = Some ?stale"
    by simp
  note inst = fileMetadata_memoizes
    [of scenario_validator ?p ?stale ?p ?stale "[''modA/infra/gateway.go'', ''modA/domain/user'']"
        "[]" "[]" False "[]" "(True, [], None)" scenario_validator]
  from inst r have "fst (fileMetadata scenario_validator ?p)
                      = ParseLayerMetadata ?p (alias' scenario_validator)"
    by (elim conjE) (rule mp)
  from this c have first: "fst (fileMetadata scenario_validator ?p)
                        = \<lparr>Module = ''modB'', Layer = LayerInterfaces\<rparr>"
    by (rule trans)
  from inst have "fileMetadata
                    (lookups (snd (fileMetadata scenario_validator ?p))
                       [''modA/infra/gateway.go'', ''modA/domain/user''])
                    ?p
                  = (fst (fileMetadata scenario_validator ?p),
                     lookups (snd (fileMetadata scenario_validator ?p))
                       [''modA/infra/gateway.go'', ''modA/domain/user''])"
    by (elim conjE)
  then have second: "fileMetadata
                  (lookups (snd (fileMetadata scenario_validator ?p))
                     [''modA/infra/gateway.go'', ''modA/domain/user''])
                  ?p
                = (\<lparr>Module = ''modB'', Layer = LayerInterfaces\<rparr>,
                   lookups (snd (fileMetadata scenario_validator ?p))
                     [''modA/infra/gateway.go'', ''modA/domain/user''])"
    by (simp only: first)
  have hit: "fileMetadata ?w ?p = (?stale, ?w)"
    using s by (rule fileMetadata_hit)
  from r n first second s hit show ?thesis by (intro conjI)
qed

subsection \<open>Ignored packages\<close>

text \<open>
  Claim C9. An import whose path, as the file writes it, contains one of the ignored
  packages is passed over before it is classified and adds no entry to the violation
  list: the loop over the imports, at such an import, goes on with the validator and
  the violations as they are, and \<open>Validate\<close> returns what it returns when the files
  do not have these imports at all, also when \<open>validateImport\<close> would report them.
\<close>

theorem ignored_imports_exempt:
  "(exempt ignoredPackages imp \<longrightarrow>
      ImportsLoop ignoredPackages importerMeta path (imp # imps) (v, errors)
        = ImportsLoop ignoredPackages importerMeta path imps (v, errors))
   \<and> Validate (map (without_exempt ignoredPackages) under_root) v root ignoreTests ignoredPackages
       = Validate under_root v root ignoreTests ignoredPackages"
  by (simp add: ignored_iff Validate_def Walk_without_exempt)

text \<open>
  The import of the first scenario is a violation, and is exempt when \<open>infra\<close> is an
  ignored package.
\<close>

theorem ignored_imports_exempt_witness:
  "exempt [''infra''] (quoted ''modA/infra/db'')
   \<and> fst (validateImport scenario_validator (quoted ''modA/infra/db'')
            \<lparr>Module = ''modA'', Layer = LayerDomain\<rparr> ''modA/domain/user.go'') \<noteq> []
   \<and> ImportsLoop [''infra''] \<lparr>Module = ''modA'', Layer = LayerDomain\<rparr> ''modA/domain/user.go''
       [quoted ''modA/infra/db''] (scenario_validator, [])
     = (scenario_validator, [])"
proof -
  have x: "exempt [''infra''] (quoted ''modA/infra/db'')"
    by code_simp
  have i: "fst (validateImport scenario_validator (quoted ''modA/infra/db'')
                 \<lparr>Module = ''modA'', Layer = LayerDomain\<rparr> ''modA/domain/user.go'') \<noteq> []"
    by code_simp
  from ignored_imports_exempt [of "[''infra'']" "quoted ''modA/infra/db''"
      "\<lparr>Module = ''modA'', Layer = LayerDomain\<rparr>" "''modA/domain/user.go''" "[]"
      scenario_validator "[]" "[]" "''.''" False] x i
  show ?thesis by simp
qed

subsection \<open>A module needs a layer\<close>

text \<open>
  Claim C10. The metadata that \<open>ParseLayerMetadata\<close> returns never has a non-empty
  module together with an empty layer; so a target classified with an empty layer has
  an empty module, and its module is not the one of an importer whose module is
  non-empty.
\<close>

theorem ParseLayerMetadata_module_needs_layer:
  "\<not> (Module (ParseLayerMetadata path alias) \<noteq> [] \<and> Layer (ParseLayerMetadata path alias) = [])
   \<and> (Layer (ParseLayerMetadata path alias) = [] \<and> Module importerMeta \<noteq> [] \<longrightarrow>
        Module (ParseLayerMetadata path alias) = []
        \<and> Module (ParseLayerMetadata path alias) \<noteq> Module importerMeta)"
  using ParseLayerMetadata_Module_Layer [of path "alias"] by auto

theorem ParseLayerMetadata_module_needs_layer_witness:
  "Layer (ParseLayerMetadata ''thirdparty/lib'' (in_order scenario_aliases)) = []
   \<and> Module \<lparr>Module = ''modA'', Layer = LayerApplication\<rparr> \<noteq> []
   \<and> Module (ParseLayerMetadata ''thirdparty/lib'' (in_order scenario_aliases)) = []
   \<and> Module (ParseLayerMetadata ''thirdparty/lib'' (in_order scenario_aliases))
       \<noteq> Module \<lparr>Module = ''modA'', Layer = LayerApplication\<rparr>"
proof -
  have l: "Layer (ParseLayerMetadata ''thirdparty/lib'' (in_order scenario_aliases)) = []"
    by code_simp
  have m: "Module \<lparr>Module = ''modA'', Layer = LayerApplication\<rparr> \<noteq> []"
    by simp
  from ParseLayerMetadata_module_needs_layer
    [of "''thirdparty/lib''" "in_order scenario_aliases"
        "\<lparr>Module = ''modA'', Layer = LayerApplication\<rparr>"] l m
  show ?thesis by simp
qed

end
